theory Spec2Isabelle
  imports Main "HOL-Library.Sublist"
begin

section \<open>Python values\<close>

text \<open>
  The engine of \<^verbatim>\<open>convlab/modules/util/multiwoz/dbquery.py\<close> works on data read by
  \<^verbatim>\<open>json.load\<close>. A Python \<^verbatim>\<open>str\<close> is a \<open>string\<close>; a \<open>char\<close> stands for a code point
  below 256, so text outside Latin-1 is outside the model. The exceptions that the
  modelled operations can raise are the values of \<open>py_error\<close>.
\<close>

datatype py_error = KeyError | IndexError | ValueError | AttributeError

text \<open>
  A decoded JSON value. A number with a fraction or an exponent is kept as its literal
  (\<open>JFloat\<close>): the engine never computes with one. A JSON object is an association list,
  read with \<open>map_of\<close>.
\<close>

datatype json =
    JNull
  | JBool bool
  | JInt int
  | JFloat string
  | JStr string
  | JList "json list"
  | JDict "(string \<times> json) list"

text \<open>One record of a domain's collection: a JSON object, field name to value.\<close>

type_synonym entity = "(string \<times> json) list"

text \<open>A constraint is a pair of a slot key and a value, both \<^verbatim>\<open>str\<close>.\<close>

type_synonym constraint = "string \<times> string"

subsection \<open>\<^verbatim>\<open>str\<close> methods\<close>

text \<open>\<^verbatim>\<open>str.lower()\<close>: A-Z and the capital letters of Latin-1 move up by 32.\<close>

definition lower_char :: "char \<Rightarrow> char" where
  "lower_char c =
     (let n = (of_char c :: nat) in
      if (65 \<le> n \<and> n \<le> 90) \<or> (192 \<le> n \<and> n \<le> 222 \<and> n \<noteq> 215)
      then char_of (n + 32) else c)"

definition lower :: "string \<Rightarrow> string" where
  "lower s = map lower_char s"

text \<open>
  The characters that \<^verbatim>\<open>str.strip()\<close> treats as whitespace: TAB, LF, VT, FF, CR, the
  separators 28 to 31, the space, NEL and the no-break space.
\<close>

definition isspace :: "char \<Rightarrow> bool" where
  "isspace c = ((of_char c :: nat) \<in> {9, 10, 11, 12, 13, 28, 29, 30, 31, 32, 133, 160})"

definition strip :: "string \<Rightarrow> string" where
  "strip s = rev (dropWhile isspace (rev (dropWhile isspace s)))"

text \<open>\<^verbatim>\<open>s.split(sep)\<close> for a one-character separator: never an empty list.\<close>

fun split :: "char \<Rightarrow> string \<Rightarrow> string list" where
  "split sep [] = [[]]"
| "split sep (c # cs) =
     (if c = sep then [] # split sep cs
      else (case split sep cs of [] \<Rightarrow> [[c]] | p # ps \<Rightarrow> (c # p) # ps))"

text \<open>\<^verbatim>\<open>xs[i]\<close> on a list, for an index that is not negative.\<close>

definition getitem :: "'a list \<Rightarrow> nat \<Rightarrow> py_error + 'a" where
  "getitem xs i = (if i < length xs then Inr (xs ! i) else Inl IndexError)"

subsection \<open>\<^verbatim>\<open>int(s)\<close> on a \<^verbatim>\<open>str\<close>\<close>

text \<open>
  As CPython 3.6 (the version the repository targets) reads a decimal literal:
  whitespace is dropped at both ends, one sign may lead, then come digits, where a
  single underscore may stand between two digits. Anything else is a \<^verbatim>\<open>ValueError\<close>.
  The whitespace of \<^verbatim>\<open>int()\<close> is narrower than that of \<^verbatim>\<open>str.strip()\<close>: TAB, LF, VT, FF,
  CR, the space, NEL and the no-break space, without the separators 28 to 31, so that
  \<^verbatim>\<open>int('\x1c08')\<close> raises.
\<close>

definition int_isspace :: "char \<Rightarrow> bool" where
  "int_isspace c = ((of_char c :: nat) \<in> {9, 10, 11, 12, 13, 32, 133, 160})"

definition int_strip :: "string \<Rightarrow> string" where
  "int_strip s = rev (dropWhile int_isspace (rev (dropWhile int_isspace s)))"

definition isdigit :: "char \<Rightarrow> bool" where
  "isdigit c = (48 \<le> (of_char c :: nat) \<and> (of_char c :: nat) \<le> 57)"

definition digit_val :: "char \<Rightarrow> nat" where
  "digit_val c = of_char c - 48"

fun digits :: "nat \<Rightarrow> string \<Rightarrow> nat option" where
  "digits acc [] = Some acc"
| "digits acc [c] = (if isdigit c then Some (acc * 10 + digit_val c) else None)"
| "digits acc (c # d # cs) =
     (if isdigit c then digits (acc * 10 + digit_val c) (d # cs)
      else if c = CHR ''_'' \<and> isdigit d then digits (acc * 10 + digit_val d) cs
      else None)"

definition unsigned :: "string \<Rightarrow> nat option" where
  "unsigned s =
     (case s of [] \<Rightarrow> None
      | c # cs \<Rightarrow> if isdigit c then digits (digit_val c) cs else None)"

definition py_int :: "string \<Rightarrow> py_error + int" where
  "py_int s =
     (case int_strip s of
        [] \<Rightarrow> Inl ValueError
      | c # cs \<Rightarrow>
          if c = CHR ''-'' then
            (case unsigned cs of None \<Rightarrow> Inl ValueError | Some n \<Rightarrow> Inr (- int n))
          else if c = CHR ''+'' then
            (case unsigned cs of None \<Rightarrow> Inl ValueError | Some n \<Rightarrow> Inr (int n))
          else
            (case unsigned (c # cs) of None \<Rightarrow> Inl ValueError | Some n \<Rightarrow> Inr (int n)))"

subsection \<open>Reading a record\<close>

text \<open>\<^verbatim>\<open>record[key]\<close>: a missing key raises \<^verbatim>\<open>KeyError\<close>.\<close>

definition dict_getitem :: "entity \<Rightarrow> string \<Rightarrow> py_error + json" where
  "dict_getitem record key =
     (case map_of record key of None \<Rightarrow> Inl KeyError | Some v \<Rightarrow> Inr v)"

text \<open>
  Calling \<^verbatim>\<open>.split\<close> or \<^verbatim>\<open>.strip\<close> on a field value: only a \<^verbatim>\<open>str\<close> has these
  methods, every other decoded JSON value raises \<^verbatim>\<open>AttributeError\<close>.
\<close>

definition str_method :: "json \<Rightarrow> py_error + string" where
  "str_method v = (case v of JStr s \<Rightarrow> Inr s | _ \<Rightarrow> Inl AttributeError)"

text \<open>
  The expression
  \<^verbatim>\<open>int(val.split(':')[0]) * 100 + int(val.split(':')[1])\<close>,
  evaluated left to right.
\<close>

definition hhmm :: "string \<Rightarrow> py_error + int" where
  "hhmm val =
     (case getitem (split (CHR '':'') val) 0 of Inl e \<Rightarrow> Inl e | Inr h \<Rightarrow>
     (case py_int h of Inl e \<Rightarrow> Inl e | Inr hour \<Rightarrow>
     (case getitem (split (CHR '':'') val) 1 of Inl e \<Rightarrow> Inl e | Inr m \<Rightarrow>
     (case py_int m of Inl e \<Rightarrow> Inl e | Inr minute \<Rightarrow>
      Inr (hour * 100 + minute)))))"

text \<open>The same expression on \<^verbatim>\<open>record[field]\<close>.\<close>

definition record_hhmm :: "entity \<Rightarrow> string \<Rightarrow> py_error + int" where
  "record_hhmm record field =
     (case dict_getitem record field of Inl e \<Rightarrow> Inl e | Inr v \<Rightarrow>
     (case str_method v of Inl e \<Rightarrow> Inl e | Inr s \<Rightarrow> hhmm s))"

section \<open>The query engine\<close>

subsection \<open>One constraint on one record\<close>

text \<open>The test of line 34: the six literal values that stand for "no preference".\<close>

definition dontcare :: "string \<Rightarrow> bool" where
  "dontcare val =
     (val = [] \<or> val = ''dont care'' \<or> val = ''not mentioned'' \<or> val = ''don't care''
      \<or> val = ''dontcare'' \<or> val = ''do n't care'')"

text \<open>
  How the body of the inner loop ends for one constraint: \<open>Next\<close> when the loop goes on
  to the following constraint (\<^verbatim>\<open>continue\<close>, or the end of the body), \<open>Break\<close> when it
  leaves the loop and the record is dropped.
\<close>

datatype flow = Next | Break

text \<open>
  The body of the \<^verbatim>\<open>try\<close> block, lines 38 to 56. The stemmer is the Porter stemmer of
  NLTK, a library outside the repository: it is the parameter \<open>stem\<close>. The existence
  test lowers the field names; the variable of its comprehension is local to it, as in
  every Python 3, so \<^verbatim>\<open>key\<close> stays the key of the constraint. The reads
  \<^verbatim>\<open>record['leaveAt']\<close>, \<^verbatim>\<open>record['arriveBy']\<close> and \<^verbatim>\<open>record[key]\<close> use the name as it is
  written.
\<close>

definition try_body ::
  "(string \<Rightarrow> string) \<Rightarrow> bool \<Rightarrow> entity \<Rightarrow> string \<Rightarrow> string \<Rightarrow> py_error + flow" where
  "try_body stem ignore_open record key val =
     (let record_keys = map (\<lambda>kv. lower (fst kv)) record in
      if lower key \<notin> set record_keys \<and> stem key \<notin> set record_keys then Inr Next
      else if key = ''leaveAt'' then
        (case hhmm val of Inl e \<Rightarrow> Inl e | Inr val1 \<Rightarrow>
        (case record_hhmm record ''leaveAt'' of Inl e \<Rightarrow> Inl e | Inr val2 \<Rightarrow>
           Inr (if val1 > val2 then Break else Next)))
      else if key = ''arriveBy'' then
        (case hhmm val of Inl e \<Rightarrow> Inl e | Inr val1 \<Rightarrow>
        (case record_hhmm record ''arriveBy'' of Inl e \<Rightarrow> Inl e | Inr val2 \<Rightarrow>
           Inr (if val1 < val2 then Break else Next)))
      else if ignore_open \<and> key \<in> set [''destination'', ''departure''] then Inr Next
      else
        (case dict_getitem record key of Inl e \<Rightarrow> Inl e | Inr v \<Rightarrow>
        (case str_method v of Inl e \<Rightarrow> Inl e | Inr s \<Rightarrow>
           Inr (if strip val \<noteq> strip s then Break else Next))))"

text \<open>
  One pass of the inner loop, lines 34 to 58: a don't-care value passes, and the bare
  \<^verbatim>\<open>except: continue\<close> turns every exception of the body into \<open>Next\<close>.
\<close>

definition constraint_step ::
  "(string \<Rightarrow> string) \<Rightarrow> bool \<Rightarrow> entity \<Rightarrow> constraint \<Rightarrow> flow" where
  "constraint_step stem ignore_open record c =
     (case c of (key, val) \<Rightarrow>
        if dontcare val then Next
        else (case try_body stem ignore_open record key val of
                Inl e \<Rightarrow> Next
              | Inr f \<Rightarrow> f))"

subsection \<open>The two loops\<close>

text \<open>
  The inner \<^verbatim>\<open>for ... else\<close> over the constraints: \<open>True\<close> when the loop runs to its end,
  so that the \<^verbatim>\<open>else\<close> branch appends the record, \<open>False\<close> when a \<^verbatim>\<open>break\<close> leaves it.
\<close>

fun constraints_loop ::
  "(string \<Rightarrow> string) \<Rightarrow> bool \<Rightarrow> entity \<Rightarrow> constraint list \<Rightarrow> bool" where
  "constraints_loop stem ignore_open record [] = True"
| "constraints_loop stem ignore_open record (c # cs) =
     (case constraint_step stem ignore_open record c of
        Next \<Rightarrow> constraints_loop stem ignore_open record cs
      | Break \<Rightarrow> False)"

text \<open>The outer loop over the records, with the list \<^verbatim>\<open>found\<close> as accumulator.\<close>

fun records_loop ::
  "(string \<Rightarrow> string) \<Rightarrow> bool \<Rightarrow> constraint list \<Rightarrow> entity list \<Rightarrow> entity list \<Rightarrow> entity list" where
  "records_loop stem ignore_open constraints [] found = found"
| "records_loop stem ignore_open constraints (record # rest) found =
     records_loop stem ignore_open constraints rest
       (if constraints_loop stem ignore_open record constraints then found @ [record]
        else found)"

subsection \<open>The store\<close>

text \<open>
  The module fills \<^verbatim>\<open>dbs\<close> once, at import, with one entry for each name of \<^verbatim>\<open>domains\<close>;
  the data files are not part of the sources, so the store is a parameter. The taxi
  entry is an object with two lists of options, each other entry a list of records.
\<close>

definition domains :: "string list" where
  "domains = [''restaurant'', ''hotel'', ''attraction'', ''train'', ''hospital'', ''taxi'',
     ''police'']"

record taxi_db =
  taxi_colors :: "string list"
  taxi_types :: "string list"

record dbs =
  restaurant :: "entity list"
  hotel :: "entity list"
  attraction :: "entity list"
  train :: "entity list"
  hospital :: "entity list"
  taxi :: taxi_db
  police :: "entity list"

text \<open>
  \<^verbatim>\<open>dbs[domain]\<close> on line 32, which is reached for no domain of the three special ones:
  a name that is not a key of \<^verbatim>\<open>dbs\<close> raises \<^verbatim>\<open>KeyError\<close>.
\<close>

definition dbs_getitem :: "dbs \<Rightarrow> string \<Rightarrow> py_error + entity list" where
  "dbs_getitem db domain =
     (if domain = ''restaurant'' then Inr (restaurant db)
      else if domain = ''hotel'' then Inr (hotel db)
      else if domain = ''attraction'' then Inr (attraction db)
      else if domain = ''train'' then Inr (train db)
      else if domain = ''hospital'' then Inr (hospital db)
      else if domain = ''police'' then Inr (police db)
      else Inl KeyError)"

subsection \<open>The random source\<close>

text \<open>
  The module \<^verbatim>\<open>random\<close> is outside the repository. Its state is the sequence of raw
  draws still to come; a draw below \<open>n\<close> takes the first of them modulo \<open>n\<close>.
  \<^verbatim>\<open>random.choice\<close> raises \<^verbatim>\<open>IndexError\<close> on an empty sequence and draws nothing;
  \<^verbatim>\<open>random.randint(a, b)\<close>, called with \<open>a \<le> b\<close> only, is \<open>a\<close> plus a draw below
  \<open>b - a + 1\<close>.
\<close>

type_synonym rng = "nat \<Rightarrow> nat"

definition randbelow :: "nat \<Rightarrow> rng \<Rightarrow> nat \<times> rng" where
  "randbelow n g = (g 0 mod n, \<lambda>i. g (Suc i))"

definition choice :: "'a list \<Rightarrow> rng \<Rightarrow> (py_error + 'a) \<times> rng" where
  "choice seq g =
     (if seq = [] then (Inl IndexError, g)
      else (case randbelow (length seq) g of (i, g') \<Rightarrow> (Inr (seq ! i), g')))"

definition randint :: "int \<Rightarrow> int \<Rightarrow> rng \<Rightarrow> int \<times> rng" where
  "randint a b g = (case randbelow (nat (b - a + 1)) g of (r, g') \<Rightarrow> (a + int r, g'))"

text \<open>The comprehension \<^verbatim>\<open>[random.randint(1, 9) for _ in range(n)]\<close>.\<close>

fun randints :: "nat \<Rightarrow> rng \<Rightarrow> int list \<times> rng" where
  "randints 0 g = ([], g)"
| "randints (Suc n) g =
     (case randint 1 9 g of (d, g') \<Rightarrow>
     (case randints n g' of (ds, g'') \<Rightarrow> (d # ds, g'')))"

subsection \<open>\<^verbatim>\<open>query\<close>\<close>

text \<open>
  The function \<^verbatim>\<open>query(domain, constraints, ignore_open)\<close>, with the store, the stemmer
  and the state of the random source made explicit. It returns the list of records, or
  the exception that leaves the function, and the state of the random source after the
  call.
\<close>

definition query ::
  "dbs \<Rightarrow> (string \<Rightarrow> string) \<Rightarrow> string \<Rightarrow> constraint list \<Rightarrow> bool \<Rightarrow> rng
     \<Rightarrow> (py_error + entity list) \<times> rng" where
  "query db stem domain constraints ignore_open g =
     (if domain = ''taxi'' then
        (case choice (taxi_colors (taxi db)) g of
           (Inl e, g1) \<Rightarrow> (Inl e, g1)
         | (Inr color, g1) \<Rightarrow>
        (case choice (taxi_types (taxi db)) g1 of
           (Inl e, g2) \<Rightarrow> (Inl e, g2)
         | (Inr type, g2) \<Rightarrow>
        (case randints 10 g2 of (phone, g3) \<Rightarrow>
           (Inr [[(''taxi_colors'', JStr color), (''taxi_types'', JStr type),
                  (''taxi_phone'', JList (map JInt phone))]], g3))))
      else if domain = ''police'' then (Inr (police db), g)
      else if domain = ''hospital'' then (Inr (hospital db), g)
      else
        (case dbs_getitem db domain of
           Inl e \<Rightarrow> (Inl e, g)
         | Inr records \<Rightarrow> (Inr (records_loop stem ignore_open constraints records []), g)))"

subsection \<open>The clock times of the specification\<close>

text \<open>
  The specification's reading of a time: the five characters \<open>HH:MM\<close>, two digits, a
  colon, two digits, encoded as \<open>HOUR * 100 + MINUTE\<close>. It follows the words of the
  specification; \<open>hhmm\<close> above is what the code computes.
\<close>

definition spec_time :: "string \<Rightarrow> int option" where
  "spec_time s =
     (case s of
        [h1, h2, c, m1, m2] \<Rightarrow>
          if isdigit h1 \<and> isdigit h2 \<and> c = CHR '':'' \<and> isdigit m1 \<and> isdigit m2
          then Some (int (digit_val h1 * 10 + digit_val h2) * 100
                     + int (digit_val m1 * 10 + digit_val m2))
          else None
      | _ \<Rightarrow> None)"

subsection \<open>Fixtures\<close>

text \<open>
  The fixture of the specification's testable properties: two trains to Cambridge. The
  other collections are small samples in the shape of the data files.
\<close>

definition train_0800 :: entity where
  "train_0800 = [(''leaveAt'', JStr ''08:00''), (''destination'', JStr ''cambridge'')]"

definition train_0930 :: entity where
  "train_0930 = [(''leaveAt'', JStr ''09:30''), (''destination'', JStr ''cambridge'')]"

text \<open>A restaurant whose field \<open>Area\<close> is written with a capital.\<close>

definition nandos :: entity where
  "nandos = [(''name'', JStr ''nandos''), (''Area'', JStr ''south''),
             (''location'', JList [JFloat ''52.2'', JFloat ''0.1''])]"

definition fixture :: dbs where
  "fixture =
     \<lparr> restaurant = [nandos],
       hotel = [],
       attraction = [],
       train = [train_0800, train_0930],
       hospital = [[(''department'', JStr ''neurology'')]],
       taxi = \<lparr> taxi_colors = [''black'', ''white''], taxi_types = [''toyota'', ''bmw''] \<rparr>,
       police = [[(''name'', JStr ''Parkside Police Station'')]] \<rparr>"

text \<open>A record with a departure time that lacks its colon and a price that is a number.\<close>

definition odd_train :: entity where
  "odd_train = [(''leaveAt'', JStr ''0800''), (''price'', JFloat ''23.60'')]"

text \<open>A fixed random source: the raw draws 7, 8, 9, ...\<close>

definition fixed_rng :: rng where
  "fixed_rng = (\<lambda>i. i + 7)"

section \<open>Properties of the model\<close>

subsection \<open>Loops\<close>

lemma records_loop_filter:
  "records_loop stem io cs rs found = found @ filter (\<lambda>r. constraints_loop stem io r cs) rs"
  by (induction rs arbitrary: found) simp_all

lemma constraints_loop_iff:
  "constraints_loop stem io r cs \<longleftrightarrow> (\<forall>c \<in> set cs. constraint_step stem io r c = Next)"
  by (induction cs) (auto split: flow.splits)

lemma isdigit_not_special:
  assumes "isdigit c"
  shows "\<not> int_isspace c" "c \<noteq> CHR '':''" "c \<noteq> CHR ''-''" "c \<noteq> CHR ''+''" "c \<noteq> CHR ''_''"
  using assms by (auto simp: isdigit_def int_isspace_def)

lemma int_strip_digits2: "isdigit a \<Longrightarrow> isdigit b \<Longrightarrow> int_strip [a, b] = [a, b]"
  by (simp add: int_strip_def isdigit_not_special)

lemma py_int_digits2:
  "isdigit a \<Longrightarrow> isdigit b \<Longrightarrow> py_int [a, b] = Inr (int (digit_val a * 10 + digit_val b))"
  by (simp add: py_int_def int_strip_digits2 unsigned_def isdigit_not_special)

lemma split_HHMM:
  "isdigit a \<Longrightarrow> isdigit b \<Longrightarrow> isdigit d \<Longrightarrow> isdigit e \<Longrightarrow>
   split (CHR '':'') [a, b, CHR '':'', d, e] = [[a, b], [d, e]]"
  by (simp add: isdigit_not_special)

lemma spec_time_cases:
  assumes "spec_time s = Some v"
  obtains h1 h2 m1 m2 where "s = [h1, h2, CHR '':'', m1, m2]"
    "isdigit h1" "isdigit h2" "isdigit m1" "isdigit m2"
    "v = int (digit_val h1 * 10 + digit_val h2) * 100 + int (digit_val m1 * 10 + digit_val m2)"
  using assms unfolding spec_time_def
  by (simp split: list.splits if_splits)

lemma spec_time_hhmm:
  assumes "spec_time s = Some v"
  shows "hhmm s = Inr v"
proof -
  from assms obtain h1 h2 m1 m2 where s: "s = [h1, h2, CHR '':'', m1, m2]"
    and d: "isdigit h1" "isdigit h2" "isdigit m1" "isdigit m2"
    and v: "v = int (digit_val h1 * 10 + digit_val h2) * 100
              + int (digit_val m1 * 10 + digit_val m2)"
    by (rule spec_time_cases)
  have "split (CHR '':'') s = [[h1, h2], [m1, m2]]"
    unfolding s using d by (rule split_HHMM)
  then show ?thesis
    using d v by (simp add: hhmm_def getitem_def py_int_digits2)
qed

lemma spec_time_not_dontcare:
  assumes "spec_time s = Some v"
  shows "\<not> dontcare s"
proof -
  from assms have "length s = 5"
    by (rule spec_time_cases) simp
  then show ?thesis
    by (auto simp: dontcare_def)
qed


lemma field_resolved:
  "map_of r key = Some v \<Longrightarrow> lower key \<in> set (map (\<lambda>kv. lower (fst kv)) r)"
  by (force dest: map_of_SomeD)

lemma try_body_leaveAt:
  assumes "map_of r ''leaveAt'' = Some (JStr s)" and "hhmm val = Inr v1" and "hhmm s = Inr v2"
  shows "try_body stem io r ''leaveAt'' val = Inr (if v1 > v2 then Break else Next)"
  using field_resolved [OF assms(1)] assms
  by (simp add: try_body_def record_hhmm_def dict_getitem_def str_method_def)

lemma try_body_arriveBy:
  assumes "map_of r ''arriveBy'' = Some (JStr s)" and "hhmm val = Inr v1" and "hhmm s = Inr v2"
  shows "try_body stem io r ''arriveBy'' val = Inr (if v1 < v2 then Break else Next)"
  using field_resolved [OF assms(1)] assms
  by (simp add: try_body_def record_hhmm_def dict_getitem_def str_method_def)

lemma try_body_default_str:
  assumes "key \<noteq> ''leaveAt''" and "key \<noteq> ''arriveBy''"
    and "\<not> (io \<and> (key = ''destination'' \<or> key = ''departure''))"
    and "map_of r key = Some (JStr s)"
  shows "try_body stem io r key val = Inr (if strip val \<noteq> strip s then Break else Next)"
  using field_resolved [OF assms(4)] assms
  by (simp add: try_body_def dict_getitem_def str_method_def)

lemma try_body_default_missing:
  assumes "key \<noteq> ''leaveAt''" and "key \<noteq> ''arriveBy''" and "map_of r key = None"
  shows "try_body stem io r key val = Inr Next \<or> try_body stem io r key val = Inl KeyError"
  using assms by (simp add: try_body_def dict_getitem_def Let_def)

lemma try_body_default_other:
  assumes "key \<noteq> ''leaveAt''" and "key \<noteq> ''arriveBy''"
    and "map_of r key = Some v" and "\<forall>s. v \<noteq> JStr s"
  shows "try_body stem io r key val = Inr Next \<or> try_body stem io r key val = Inl AttributeError"
  using assms by (cases v) (simp_all add: try_body_def dict_getitem_def str_method_def Let_def)

lemma constraint_step_default:
  assumes "\<not> dontcare val" and "key \<noteq> ''leaveAt''" and "key \<noteq> ''arriveBy''"
    and "\<not> (io \<and> (key = ''destination'' \<or> key = ''departure''))"
  shows "constraint_step stem io r (key, val) = Next
         \<longleftrightarrow> (\<forall>s. map_of r key = Some (JStr s) \<longrightarrow> strip val = strip s)"
proof (cases "map_of r key")
  case None
  with try_body_default_missing [OF assms(2,3) this, of stem io val] assms(1) show ?thesis
    by (auto simp: constraint_step_def)
next
  case (Some v)
  show ?thesis
  proof (cases "\<exists>s. v = JStr s")
    case True
    then obtain s where "v = JStr s" ..
    with Some have "map_of r key = Some (JStr s)" by simp
    from try_body_default_str [OF assms(2,3,4) this, of stem val] this assms(1)
    show ?thesis by (simp add: constraint_step_def)
  next
    case False
    then have "\<forall>s. v \<noteq> JStr s" by simp
    from try_body_default_other [OF assms(2,3) Some this, of stem io val] Some False assms(1)
    show ?thesis by (auto simp: constraint_step_def)
  qed
qed

lemma constraint_step_raise:
  "try_body stem io r key val = Inl e \<Longrightarrow> constraint_step stem io r (key, val) = Next"
  by (simp add: constraint_step_def)

lemma constraint_step_dontcare:
  "dontcare val \<Longrightarrow> constraint_step stem io r (key, val) = Next"
  by (simp add: constraint_step_def)

lemma constraint_step_ignore_open:
  "key = ''destination'' \<or> key = ''departure'' \<Longrightarrow> constraint_step stem True r (key, val) = Next"
  by (auto simp: constraint_step_def try_body_def)

lemma query_generic:
  assumes "dbs_getitem db domain = Inr records"
    and "domain \<noteq> ''police''" and "domain \<noteq> ''hospital''"
  shows "query db stem domain cs io g =
         (Inr (filter (\<lambda>r. \<forall>c \<in> set cs. constraint_step stem io r c = Next) records), g)"
proof -
  from assms(1) have "domain \<noteq> ''taxi''"
    by (auto simp: dbs_getitem_def)
  with assms show ?thesis
    by (simp add: query_def records_loop_filter constraints_loop_iff)
qed

lemma dbs_getitem_domains:
  assumes "domain \<in> set domains" and "domain \<noteq> ''taxi''"
  shows "\<exists>records. dbs_getitem db domain = Inr records"
  using assms by (auto simp: domains_def dbs_getitem_def)

lemma query_special_or_generic:
  "query db stem domain cs io g =
     (if domain = ''taxi'' then query db stem ''taxi'' [] True g
      else if domain = ''police'' then (Inr (police db), g)
      else if domain = ''hospital'' then (Inr (hospital db), g)
      else (case dbs_getitem db domain of Inl e \<Rightarrow> (Inl e, g)
            | Inr records \<Rightarrow>
                (Inr (filter (\<lambda>r. \<forall>c \<in> set cs. constraint_step stem io r c = Next) records), g)))"
  by (simp add: query_def records_loop_filter constraints_loop_iff split: sum.splits)

lemma query_drop_constraint:
  assumes "\<And>r. constraint_step stem io r c = Next"
  shows "query db stem domain (cs1 @ c # cs2) io g = query db stem domain (cs1 @ cs2) io g"
  using assms
  by (simp add: query_special_or_generic [of db stem domain "cs1 @ c # cs2"]
      query_special_or_generic [of db stem domain "cs1 @ cs2"] ball_Un split: sum.splits)

subsection \<open>Time windows\<close>

lemma lower_literals:
  "lower ''leaveAt'' = ''leaveat''" "lower ''arriveBy'' = ''arriveby''"
  by code_simp+

lemma spec_time_fixture:
  "spec_time ''08:00'' = Some 800" "spec_time ''08:30'' = Some 830"
  "spec_time ''09:30'' = Some 930"
  by code_simp+

lemma constraint_step_leaveAt:
  assumes "spec_time val = Some v1" and "map_of r ''leaveAt'' = Some (JStr s)"
    and "spec_time s = Some v2"
  shows "constraint_step stem io r (''leaveAt'', val) = Next \<longleftrightarrow> v1 \<le> v2"
  using try_body_leaveAt [OF assms(2) spec_time_hhmm [OF assms(1)] spec_time_hhmm [OF assms(3)],
      of stem io]
    spec_time_not_dontcare [OF assms(1)]
  by (simp add: constraint_step_def)

lemma constraint_step_arriveBy:
  assumes "spec_time val = Some v1" and "map_of r ''arriveBy'' = Some (JStr s)"
    and "spec_time s = Some v2"
  shows "constraint_step stem io r (''arriveBy'', val) = Next \<longleftrightarrow> v2 \<le> v1"
  using try_body_arriveBy [OF assms(2) spec_time_hhmm [OF assms(1)] spec_time_hhmm [OF assms(3)],
      of stem io]
    spec_time_not_dontcare [OF assms(1)]
  by (simp add: constraint_step_def)

text \<open>
  Claim C1, as stated: a constraint whose resolved key is \<open>leaveAt\<close> is satisfied exactly
  when the record's time is at least the constraint's. The key \<open>leaveat\<close> resolves, up to
  case, to the field \<open>leaveAt\<close> of the 08:00 train, and to no other field; the value
  \<open>23:00\<close> is later than \<open>08:00\<close>; and yet the constraint is satisfied and \<open>query\<close>
  returns both trains. The code compares times only under the key written \<open>leaveAt\<close>,
  where the same value excludes both trains.
\<close>

theorem time_window_counterexample:
  "lower ''leaveat'' = lower ''leaveAt'' \<and>
   map_of train_0800 ''leaveAt'' = Some (JStr ''08:00'') \<and>
   filter (\<lambda>k. lower k = lower ''leaveat'') (map fst train_0800) = [''leaveAt''] \<and>
   spec_time ''23:00'' = Some 2300 \<and> spec_time ''08:00'' = Some 800 \<and>
   \<not> (2300 \<le> (800 :: int)) \<and>
   try_body id True train_0800 ''leaveat'' ''23:00'' = Inl KeyError \<and>
   constraint_step id True train_0800 (''leaveat'', ''23:00'') = Next \<and>
   train fixture = [train_0800, train_0930] \<and>
   fst (query fixture id ''train'' [(''leaveat'', ''23:00'')] True fixed_rng)
     = Inr [train_0800, train_0930] \<and>
   fst (query fixture id ''train'' [(''leaveAt'', ''23:00'')] True fixed_rng) = Inr []"
  by code_simp

text \<open>
  Claim C1, amended. On the generic path a constraint whose key is written exactly
  \<open>leaveAt\<close>, with a value \<open>HH:MM\<close>, is satisfied by a record whose field named exactly
  \<open>leaveAt\<close> is a time \<open>HH:MM\<close> exactly when the record's time, encoded as
  \<open>HOUR * 100 + MINUTE\<close>, is at least the constraint's; for the key and field written
  exactly \<open>arriveBy\<close>, exactly when it is at most the constraint's. On the two trains of
  the fixture, the constraint \<open>leaveAt = 08:30\<close> returns the 09:30 train alone.
\<close>

theorem time_window:
  "(spec_time val = Some v1 \<and> spec_time s = Some v2 \<longrightarrow>
      (map_of r ''leaveAt'' = Some (JStr s) \<longrightarrow>
         (constraint_step stem io r (''leaveAt'', val) = Next \<longleftrightarrow> v1 \<le> v2)) \<and>
      (map_of r ''arriveBy'' = Some (JStr s) \<longrightarrow>
         (constraint_step stem io r (''arriveBy'', val) = Next \<longleftrightarrow> v2 \<le> v1))) \<and>
   (train db = [train_0800, train_0930] \<longrightarrow>
      query db stem ''train'' [(''leaveAt'', ''08:30'')] io g = (Inr [train_0930], g))"
proof -
  have a: "constraint_step stem io train_0800 (''leaveAt'', ''08:30'') \<noteq> Next"
    using constraint_step_leaveAt [OF spec_time_fixture(2) _ spec_time_fixture(1),
        of train_0800 stem io]
    by (simp add: train_0800_def)
  have b: "constraint_step stem io train_0930 (''leaveAt'', ''08:30'') = Next"
    using constraint_step_leaveAt [OF spec_time_fixture(2) _ spec_time_fixture(3),
        of train_0930 stem io]
    by (simp add: train_0930_def)
  have "query db stem ''train'' [(''leaveAt'', ''08:30'')] io g = (Inr [train_0930], g)"
    if "train db = [train_0800, train_0930]"
  proof -
    have "dbs_getitem db ''train'' = Inr [train_0800, train_0930]"
      using that by (simp add: dbs_getitem_def)
    from query_generic [OF this] a b show ?thesis
      by simp
  qed
  then show ?thesis
    using constraint_step_leaveAt constraint_step_arriveBy by blast
qed

theorem time_window_witness:
  "spec_time ''08:30'' = Some 830 \<and> spec_time ''09:30'' = Some 930 \<and>
   map_of train_0930 ''leaveAt'' = Some (JStr ''09:30'') \<and>
   train fixture = [train_0800, train_0930] \<and>
   constraint_step id True train_0930 (''leaveAt'', ''08:30'') = Next \<and>
   query fixture id ''train'' [(''leaveAt'', ''08:30'')] True fixed_rng
     = (Inr [train_0930], fixed_rng)"
proof -
  have h: "spec_time ''08:30'' = Some 830" "spec_time ''09:30'' = Some 930"
    by code_simp+
  have m: "map_of train_0930 ''leaveAt'' = Some (JStr ''09:30'')"
    by (simp add: train_0930_def)
  have t: "train fixture = [train_0800, train_0930]"
    by (simp add: fixture_def)
  show ?thesis
    using h m t
      time_window [where val = "''08:30''" and ?v1.0 = 830 and s = "''09:30''" and ?v2.0 = 930
        and r = train_0930 and stem = id and io = True and db = fixture and g = fixed_rng]
    by simp
qed

subsection \<open>The default comparison\<close>

text \<open>
  Claim C2, as stated: whenever the record has a field whose name equals the key up to
  case, the constraint is satisfied exactly when the two values are equal after
  trimming. The code reads \<^verbatim>\<open>record[key]\<close> under the key as written: the restaurant of
  the fixture has the field \<open>Area\<close> with value \<open>south\<close>, the key \<open>area\<close> equals that name
  up to case, \<open>north\<close> differs from \<open>south\<close>, and yet the constraint is satisfied and the
  query returns the record.
\<close>

theorem default_comparison_counterexample:
  "\<not> dontcare ''north'' \<and> ''area'' \<noteq> ''leaveAt'' \<and> ''area'' \<noteq> ''arriveBy''
   \<and> ''area'' \<noteq> ''destination'' \<and> ''area'' \<noteq> ''departure''
   \<and> map_of nandos ''Area'' = Some (JStr ''south'')
   \<and> lower ''Area'' = lower ''area''
   \<and> strip ''north'' \<noteq> strip ''south''
   \<and> try_body id False nandos ''area'' ''north'' = Inl KeyError
   \<and> constraint_step id False nandos (''area'', ''north'') = Next
   \<and> restaurant fixture = [nandos]
   \<and> fst (query fixture id ''restaurant'' [(''area'', ''north'')] False fixed_rng)
       = Inr [nandos]"
  by code_simp

text \<open>
  Claim C2, amended. For a constraint that is not a don't-care value, not on
  \<open>leaveAt\<close> or \<open>arriveBy\<close> and not an ignore-open field, the record satisfies the
  constraint exactly when it has no field named exactly as the key is written, or that
  field's value is not a string, or the value equals the constraint's after trimming
  both (compared case-sensitively). Matching the field names up to case only decides
  whether the comparison is attempted, never which field is read.
\<close>

theorem default_comparison:
  assumes "\<not> dontcare val" and "key \<noteq> ''leaveAt''" and "key \<noteq> ''arriveBy''"
    and "\<not> (ignore_open \<and> (key = ''destination'' \<or> key = ''departure''))"
  shows "constraint_step stem ignore_open record (key, val) = Next
         \<longleftrightarrow> (\<forall>s. map_of record key = Some (JStr s) \<longrightarrow> strip val = strip s)"
  using assms by (rule constraint_step_default)

theorem default_comparison_witness:
  "\<not> dontcare ''north '' \<and> ''Area'' \<noteq> ''leaveAt'' \<and> ''Area'' \<noteq> ''arriveBy''
   \<and> \<not> (False \<and> (''Area'' = ''destination'' \<or> ''Area'' = ''departure''))
   \<and> map_of nandos ''Area'' = Some (JStr ''south'')
   \<and> strip ''north '' \<noteq> strip ''south''
   \<and> constraint_step id False nandos (''Area'', ''north '') \<noteq> Next"
proof -
  have h: "\<not> dontcare ''north ''" "''Area'' \<noteq> ''leaveAt''" "''Area'' \<noteq> ''arriveBy''"
    "\<not> (False \<and> (''Area'' = ''destination'' \<or> ''Area'' = ''departure''))"
    by (simp_all add: dontcare_def)
  have m: "map_of nandos ''Area'' = Some (JStr ''south'')"
    by (simp add: nandos_def)
  have s: "strip ''north '' \<noteq> strip ''south''"
    by code_simp
  show ?thesis
    using h m s default_comparison [OF h, of id nandos]
    by simp
qed

subsection \<open>Errors in the comparison\<close>

lemma try_body_leaveAt_eq:
  "try_body stem io r ''leaveAt'' val =
     (if lower ''leaveAt'' \<notin> (\<lambda>kv. lower (fst kv)) ` set r
         \<and> stem ''leaveAt'' \<notin> (\<lambda>kv. lower (fst kv)) ` set r
      then Inr Next
      else (case hhmm val of Inl e \<Rightarrow> Inl e | Inr val1 \<Rightarrow>
           (case record_hhmm r ''leaveAt'' of Inl e \<Rightarrow> Inl e | Inr val2 \<Rightarrow>
              Inr (if val1 > val2 then Break else Next))))"
  by (simp add: try_body_def)

lemma try_body_arriveBy_eq:
  "try_body stem io r ''arriveBy'' val =
     (if lower ''arriveBy'' \<notin> (\<lambda>kv. lower (fst kv)) ` set r
         \<and> stem ''arriveBy'' \<notin> (\<lambda>kv. lower (fst kv)) ` set r
      then Inr Next
      else (case hhmm val of Inl e \<Rightarrow> Inl e | Inr val1 \<Rightarrow>
           (case record_hhmm r ''arriveBy'' of Inl e \<Rightarrow> Inl e | Inr val2 \<Rightarrow>
              Inr (if val1 < val2 then Break else Next))))"
  by (simp add: try_body_def)

lemma try_body_other_eq:
  assumes "key \<noteq> ''leaveAt''" and "key \<noteq> ''arriveBy''"
  shows "try_body stem io r key val =
     (if lower key \<notin> (\<lambda>kv. lower (fst kv)) ` set r
         \<and> stem key \<notin> (\<lambda>kv. lower (fst kv)) ` set r
      then Inr Next
      else if io \<and> (key = ''destination'' \<or> key = ''departure'') then Inr Next
      else (case dict_getitem r key of Inl e \<Rightarrow> Inl e | Inr v \<Rightarrow>
           (case str_method v of Inl e \<Rightarrow> Inl e | Inr s \<Rightarrow>
              Inr (if strip val \<noteq> strip s then Break else Next))))"
  using assms by (simp add: try_body_def)

lemma constraint_step_time:
  assumes "key = ''leaveAt'' \<or> key = ''arriveBy''"
    and "hhmm val = Inl e \<or> record_hhmm r key = Inl e"
  shows "constraint_step stem io r (key, val) = Next"
proof -
  have "try_body stem io r key val = Inr Next \<or> (\<exists>e'. try_body stem io r key val = Inl e')"
  proof (cases "hhmm val")
    case (Inl e')
    from assms(1) show ?thesis
    proof
      assume "key = ''leaveAt''"
      with Inl show ?thesis by (simp add: try_body_leaveAt_eq)
    next
      assume "key = ''arriveBy''"
      with Inl show ?thesis by (simp add: try_body_arriveBy_eq)
    qed
  next
    case (Inr val1)
    with assms(2) have *: "record_hhmm r key = Inl e" by simp
    from assms(1) show ?thesis
    proof
      assume "key = ''leaveAt''"
      with Inr * show ?thesis by (simp add: try_body_leaveAt_eq)
    next
      assume "key = ''arriveBy''"
      with Inr * show ?thesis by (simp add: try_body_arriveBy_eq)
    qed
  qed
  then show ?thesis
    by (auto simp: constraint_step_def)
qed

lemma constraint_step_no_str:
  assumes "dict_getitem r key = Inl e \<or> (\<exists>v. dict_getitem r key = Inr v \<and> str_method v = Inl e)"
  shows "constraint_step stem io r (key, val) = Next"
proof (cases "key = ''leaveAt'' \<or> key = ''arriveBy''")
  case True
  from assms have "record_hhmm r key = Inl e"
    by (auto simp: record_hhmm_def)
  with True show ?thesis
    by (blast intro: constraint_step_time)
next
  case False
  then have k: "key \<noteq> ''leaveAt''" "key \<noteq> ''arriveBy''" by simp_all
  from assms have "(case dict_getitem r key of Inl e \<Rightarrow> Inl e | Inr v \<Rightarrow>
           (case str_method v of Inl e \<Rightarrow> Inl e | Inr s \<Rightarrow>
              Inr (if strip val \<noteq> strip s then Break else Next))) = Inl e"
    by auto
  then have "try_body stem io r key val = Inr Next \<or> try_body stem io r key val = Inl e"
    by (simp add: try_body_other_eq [OF k])
  then show ?thesis
    by (auto simp: constraint_step_def)
qed

lemma constraint_step_missing:
  assumes "map_of r key = None"
  shows "constraint_step stem io r (key, val) = Next"
proof -
  from assms have "dict_getitem r key = Inl KeyError"
    by (simp add: dict_getitem_def)
  then show ?thesis
    by (blast intro: constraint_step_no_str)
qed

lemma constraint_step_not_str:
  assumes "map_of r key = Some v" and "\<forall>s. v \<noteq> JStr s"
  shows "constraint_step stem io r (key, val) = Next"
proof -
  from assms(2) have "str_method v = Inl AttributeError"
    by (cases v) (simp_all add: str_method_def)
  moreover from assms(1) have "dict_getitem r key = Inr v"
    by (simp add: dict_getitem_def)
  ultimately show ?thesis
    by (blast intro: constraint_step_no_str)
qed

lemma constraint_step_malformed_value:
  assumes "key = ''leaveAt'' \<or> key = ''arriveBy''" and "hhmm val = Inl e"
  shows "constraint_step stem io r (key, val) = Next"
  using assms by (blast intro: constraint_step_time)

lemma constraint_step_malformed_field:
  assumes "key = ''leaveAt'' \<or> key = ''arriveBy''" and "map_of r key = Some (JStr s)"
    and "hhmm s = Inl e"
  shows "constraint_step stem io r (key, val) = Next"
proof -
  from assms(2,3) have "record_hhmm r key = Inl e"
    by (simp add: record_hhmm_def dict_getitem_def str_method_def)
  with assms(1) show ?thesis
    by (blast intro: constraint_step_time)
qed

text \<open>
  The stemmer never changes the outcome: it is consulted only when no field has the
  key's name up to case, and then the record has no field under the key as written, so
  that the constraint passes whatever the stemmer answers (or if it raises).
\<close>

lemma constraint_step_stem:
  "constraint_step stem io r c = constraint_step stem' io r c"
proof (cases c)
  case (Pair key val)
  show ?thesis
  proof (cases "lower key \<in> (\<lambda>kv. lower (fst kv)) ` set r")
    case True
    then have "try_body stem io r key val = try_body stem' io r key val"
      by (simp add: try_body_def)
    then show ?thesis
      by (simp add: Pair constraint_step_def)
  next
    case False
    then have "key \<notin> fst ` set r"
      by force
    then have "map_of r key = None"
      by (simp add: map_of_eq_None_iff)
    then show ?thesis
      by (simp add: Pair constraint_step_missing)
  qed
qed

lemma query_stem:
  "query db stem domain cs io g = query db stem' domain cs io g"
proof -
  have "filter (\<lambda>r. \<forall>c \<in> set cs. constraint_step stem io r c = Next) records
        = filter (\<lambda>r. \<forall>c \<in> set cs. constraint_step stem' io r c = Next) records"
    for records
    by (simp add: constraint_step_stem [of stem _ _ _ stem'])
  moreover have "query db stem ''taxi'' [] True g = query db stem' ''taxi'' [] True g"
    by (simp add: query_def)
  ultimately show ?thesis
    by (simp add: query_special_or_generic [of db stem domain cs]
        query_special_or_generic [of db stem' domain cs] split: sum.splits)
qed

lemma query_returns:
  assumes "domain \<in> set domains" and "domain \<noteq> ''taxi''"
  shows "\<exists>found. query db stem domain cs io g = (Inr found, g)"
proof -
  from dbs_getitem_domains [OF assms] obtain records
    where "dbs_getitem db domain = Inr records" ..
  then show ?thesis
    by (simp add: query_special_or_generic [of db stem domain cs] assms(2))
qed

text \<open>
  Claim C3. An error raised while a constraint is compared makes the constraint count as
  satisfied, and none reaches the caller of \<open>query\<close>: when the body of the \<^verbatim>\<open>try\<close> block
  raises, the loop goes on to the next constraint as if the constraint were absent. So
  does it when the record has no field under the key as written, when the value of a
  constraint on \<open>leaveAt\<close> or \<open>arriveBy\<close>, or the record's field, is a time that does
  not parse (a missing colon, or a part that \<^verbatim>\<open>int()\<close> refuses), and when the field is
  not a string. On every domain of the store but
  \<open>taxi\<close>, \<open>query\<close> returns a list.
\<close>

theorem error_tolerance:
  "(try_body stem io r key val = Inl e \<longrightarrow>
      constraint_step stem io r (key, val) = Next \<and>
      constraints_loop stem io r ((key, val) # cs) = constraints_loop stem io r cs) \<and>
   (map_of r k_missing = None \<longrightarrow> constraint_step stem io r (k_missing, val) = Next) \<and>
   ((key = ''leaveAt'' \<or> key = ''arriveBy'') \<and>
      (hhmm val' = Inl e \<or> (map_of r key = Some (JStr s) \<and> hhmm s = Inl e)) \<longrightarrow>
      constraint_step stem io r (key, val') = Next) \<and>
   (map_of r k_other = Some v \<and> (\<forall>s. v \<noteq> JStr s) \<longrightarrow>
      constraint_step stem io r (k_other, val) = Next) \<and>
   (domain \<in> set domains \<and> domain \<noteq> ''taxi'' \<longrightarrow>
      (\<exists>found. query db stem domain cs io g = (Inr found, g)))"
  using constraint_step_raise [of stem io r key val e]
    constraint_step_missing [of r k_missing stem io val]
    constraint_step_malformed_value [of key val' e stem io r]
    constraint_step_malformed_field [of key r s e stem io val']
    constraint_step_not_str [of r k_other v stem io val]
    query_returns [of domain db stem cs io g]
  by auto

theorem error_tolerance_witness:
  "try_body id False odd_train ''leaveAt'' ''08:30'' = Inl IndexError \<and>
   map_of odd_train ''day'' = None \<and>
   map_of odd_train ''leaveAt'' = Some (JStr ''0800'') \<and> hhmm ''0800'' = Inl IndexError \<and>
   hhmm ''8.30'' = Inl ValueError \<and>
   hhmm (CHR 0x1C # ''08:30'') = Inl ValueError \<and>
   map_of odd_train ''price'' = Some (JFloat ''23.60'') \<and>
   ''train'' \<in> set domains \<and>
   constraint_step id False odd_train (''leaveAt'', ''08:30'') = Next \<and>
   constraints_loop id False odd_train [(''leaveAt'', ''08:30''), (''price'', ''5'')]
     = constraints_loop id False odd_train [(''price'', ''5'')] \<and>
   constraint_step id False odd_train (''day'', ''08:30'') = Next \<and>
   constraint_step id False odd_train (''price'', ''08:30'') = Next \<and>
   constraint_step id False odd_train (''leaveAt'', ''8.30'') = Next \<and>
   constraint_step id False train_0800 (''leaveAt'', CHR 0x1C # ''08:30'') = Next \<and>
   (\<exists>found. query fixture id ''train'' [(''price'', ''5'')] False fixed_rng = (Inr found, fixed_rng))"
proof -
  have a: "try_body id False odd_train ''leaveAt'' ''08:30'' = Inl IndexError"
    "hhmm ''0800'' = Inl IndexError" "hhmm ''8.30'' = Inl ValueError"
    "hhmm (CHR 0x1C # ''08:30'') = Inl ValueError"
    by code_simp+
  have b: "map_of odd_train ''day'' = None"
    "map_of odd_train ''leaveAt'' = Some (JStr ''0800'')"
    "map_of odd_train ''price'' = Some (JFloat ''23.60'')"
    by (simp_all add: odd_train_def)
  have c: "''train'' \<in> set domains"
    by (simp add: domains_def)
  show ?thesis
    using a b c
      error_tolerance [where stem = id and io = False and r = odd_train and key = "''leaveAt''"
        and val = "''08:30''" and e = IndexError and cs = "[(''price'', ''5'')]"
        and k_missing = "''day''" and val' = "''08:30''" and s = "''0800''"
        and k_other = "''price''" and v = "JFloat ''23.60''" and domain = "''train''"
        and db = fixture and g = fixed_rng]
      error_tolerance [where stem = id and io = False and r = odd_train and key = "''leaveAt''"
        and val' = "''8.30''" and e = ValueError]
      error_tolerance [where stem = id and io = False and r = train_0800 and key = "''leaveAt''"
        and val' = "CHR 0x1C # ''08:30''" and e = ValueError]
    by simp
qed

subsection \<open>Don't-care values\<close>

text \<open>
  Claim C4. For every domain and every list of constraints, a constraint whose value is
  one of the six don't-care tokens, appended to the list (or put anywhere in it), leaves
  the result of \<open>query\<close> as it is without it.
\<close>

theorem dontcare_neutral:
  assumes "v \<in> {'''', ''dont care'', ''not mentioned'', ''don't care'', ''dontcare'',
                 ''do n't care''}"
  shows "query db stem domain (cs @ [(k, v)]) io g = query db stem domain cs io g \<and>
         query db stem domain (cs @ (k, v) # cs') io g = query db stem domain (cs @ cs') io g"
proof -
  from assms have "dontcare v"
    by (auto simp: dontcare_def)
  then have "\<And>r. constraint_step stem io r (k, v) = Next"
    by (rule constraint_step_dontcare)
  from query_drop_constraint [of stem io "(k, v)", OF this]
  show ?thesis
    by (metis append_Nil2)
qed

theorem dontcare_neutral_witness:
  "''dontcare'' \<in> {'''', ''dont care'', ''not mentioned'', ''don't care'', ''dontcare'',
                 ''do n't care''} \<and>
   query fixture id ''train'' ([(''leaveAt'', ''08:30'')] @ [(''destination'', ''dontcare'')])
     False fixed_rng
   = query fixture id ''train'' [(''leaveAt'', ''08:30'')] False fixed_rng"
proof -
  have h: "''dontcare'' \<in> {'''', ''dont care'', ''not mentioned'', ''don't care'', ''dontcare'',
                 ''do n't care''}"
    by simp
  show ?thesis
    using h dontcare_neutral [OF h, of fixture id "''train''" "[(''leaveAt'', ''08:30'')]"
        "''destination''" False fixed_rng]
    by simp
qed

subsection \<open>The special domains\<close>

text \<open>
  Claim C5. For the domains \<open>police\<close> and \<open>hospital\<close>, \<open>query\<close> returns the whole
  collection of the store, for every list of constraints and either value of
  \<open>ignore_open\<close>.
\<close>

theorem police_hospital_unfiltered:
  "query db stem ''police'' cs io g = (Inr (police db), g) \<and>
   query db stem ''hospital'' cs io g = (Inr (hospital db), g)"
  by (simp add: query_def)

theorem police_hospital_unfiltered_witness:
  "query fixture id ''hospital'' [(''department'', ''cardiology'')] False fixed_rng
     = (Inr [[(''department'', JStr ''neurology'')]], fixed_rng) \<and>
   query fixture id ''police'' [] True fixed_rng
     = (Inr [[(''name'', JStr ''Parkside Police Station'')]], fixed_rng)"
  using police_hospital_unfiltered [of fixture id "[(''department'', ''cardiology'')]" False fixed_rng]
    police_hospital_unfiltered [of fixture id "[]" True fixed_rng]
  by (simp add: fixture_def)

subsection \<open>The taxi domain\<close>

lemma randints_eq:
  "randints n g = (map (\<lambda>i. 1 + int (g i mod 9)) [0..<n], \<lambda>i. g (i + n))"
proof (induction n arbitrary: g)
  case 0
  show ?case by simp
next
  case (Suc n)
  have "randint 1 9 g = (1 + int (g 0 mod 9), \<lambda>i. g (Suc i))"
    by (simp add: randint_def randbelow_def)
  then show ?case
    by (simp add: Suc.IH map_upt_Suc del: upt_Suc)
qed

lemma choice_nonempty:
  assumes "seq \<noteq> []"
  shows "choice seq g = (Inr (seq ! (g 0 mod length seq)), \<lambda>i. g (Suc i))"
  using assms by (simp add: choice_def randbelow_def)

text \<open>An empty list of options makes \<^verbatim>\<open>random.choice\<close> raise, and \<open>query\<close> with it.\<close>

lemma taxi_query_empty:
  assumes "taxi_colors (taxi db) = [] \<or> taxi_types (taxi db) = []"
  shows "fst (query db stem ''taxi'' cs io g) = Inl IndexError"
  using assms by (auto simp: query_def choice_def randbelow_def)

text \<open>
  Claim C6. For the domain \<open>taxi\<close>, with a store whose two lists of options are not
  empty, every call of \<open>query\<close> returns one record: its \<open>taxi_colors\<close> is a member of the
  store's colours, its \<open>taxi_types\<close> a member of the store's types, its \<open>taxi_phone\<close> a
  list of ten integers between 1 and 9. The random source determines all three: the
  colour is chosen by the first draw, the type by the second, the digits by the next
  ten.
\<close>

theorem taxi_query:
  assumes "taxi_colors (taxi db) \<noteq> []" and "taxi_types (taxi db) \<noteq> []"
  shows "\<exists>color type phone.
           query db stem ''taxi'' cs io g =
             (Inr [[(''taxi_colors'', JStr color), (''taxi_types'', JStr type),
                    (''taxi_phone'', JList (map JInt phone))]], \<lambda>i. g (i + 12)) \<and>
           color \<in> set (taxi_colors (taxi db)) \<and>
           type \<in> set (taxi_types (taxi db)) \<and>
           length phone = 10 \<and> (\<forall>d \<in> set phone. 1 \<le> d \<and> d \<le> 9) \<and>
           color = taxi_colors (taxi db) ! (g 0 mod length (taxi_colors (taxi db))) \<and>
           type = taxi_types (taxi db) ! (g 1 mod length (taxi_types (taxi db))) \<and>
           phone = map (\<lambda>i. 1 + int (g (i + 2) mod 9)) [0..<10]"
proof -
  let ?colors = "taxi_colors (taxi db)" and ?types = "taxi_types (taxi db)"
  let ?color = "?colors ! (g 0 mod length ?colors)"
  let ?type = "?types ! (g 1 mod length ?types)"
  let ?phone = "map (\<lambda>i. 1 + int (g (i + 2) mod 9)) [0..<10]"
  have q: "query db stem ''taxi'' cs io g =
             (Inr [[(''taxi_colors'', JStr ?color), (''taxi_types'', JStr ?type),
                    (''taxi_phone'', JList (map JInt ?phone))]], \<lambda>i. g (i + 12))"
    unfolding query_def
    by (simp add: choice_nonempty [OF assms(1)] choice_nonempty [OF assms(2)] randints_eq
        add.commute del: upt_Suc)
  have c: "?color \<in> set ?colors"
    using assms(1) by simp
  have t: "?type \<in> set ?types"
    using assms(2) by simp
  have l: "length ?phone = 10"
    by simp
  have p: "\<forall>d \<in> set ?phone. 1 \<le> d \<and> d \<le> 9"
  proof
    fix d assume "d \<in> set ?phone"
    then obtain i where "d = 1 + int (g (i + 2) mod 9)" by auto
    moreover have "g (i + 2) mod 9 < 9" by simp
    ultimately show "1 \<le> d \<and> d \<le> 9" by linarith
  qed
  from q c t l p show ?thesis by blast
qed

theorem taxi_query_witness:
  "taxi_colors (taxi fixture) \<noteq> [] \<and> taxi_types (taxi fixture) \<noteq> [] \<and>
   fst (query fixture id ''taxi'' [(''destination'', ''cambridge'')] True fixed_rng) =
     Inr [[(''taxi_colors'', JStr ''white''), (''taxi_types'', JStr ''toyota''),
           (''taxi_phone'', JList (map JInt [1, 2, 3, 4, 5, 6, 7, 8, 9, 1]))]]"
proof -
  have h: "taxi_colors (taxi fixture) \<noteq> []" "taxi_types (taxi fixture) \<noteq> []"
    by (simp_all add: fixture_def)
  have c: "taxi_colors (taxi fixture) ! (fixed_rng 0 mod length (taxi_colors (taxi fixture)))
      = ''white''"
    "taxi_types (taxi fixture) ! (fixed_rng 1 mod length (taxi_types (taxi fixture)))
      = ''toyota''"
    "map (\<lambda>i. 1 + int (fixed_rng (i + 2) mod 9)) [0..<10] = [1, 2, 3, 4, 5, 6, 7, 8, 9, 1]"
    by code_simp+
  from taxi_query [OF h, of id "[(''destination'', ''cambridge'')]" True fixed_rng]
  obtain color type phone where
    q: "query fixture id ''taxi'' [(''destination'', ''cambridge'')] True fixed_rng =
             (Inr [[(''taxi_colors'', JStr color), (''taxi_types'', JStr type),
                    (''taxi_phone'', JList (map JInt phone))]], \<lambda>i. fixed_rng (i + 12))"
    and "color = taxi_colors (taxi fixture) ! (fixed_rng 0 mod length (taxi_colors (taxi fixture)))"
    and "type = taxi_types (taxi fixture) ! (fixed_rng 1 mod length (taxi_types (taxi fixture)))"
    and "phone = map (\<lambda>i. 1 + int (fixed_rng (i + 2) mod 9)) [0..<10]"
    by blast
  then have "color = ''white''" "type = ''toyota''" "phone = [1, 2, 3, 4, 5, 6, 7, 8, 9, 1]"
    by (simp_all only: c)
  with q h show ?thesis by simp
qed

subsection \<open>Ignore-open fields\<close>

text \<open>
  Claim C7. With \<open>ignore_open\<close> true, a constraint on \<open>destination\<close> or \<open>departure\<close>
  is satisfied by every record whatever its value, so that it never changes the result
  of \<open>query\<close>. With \<open>ignore_open\<close> false, and a value that is not a don't-care token, the
  same constraint goes through the default comparison: it fails exactly when the
  record's field of that name is a string that differs from the value after both are
  trimmed.
\<close>

theorem ignore_open_fields:
  assumes "key = ''destination'' \<or> key = ''departure''"
  shows "constraint_step stem True r (key, val) = Next \<and>
         query db stem domain (cs @ [(key, val)]) True g = query db stem domain cs True g \<and>
         (\<not> dontcare val \<longrightarrow>
            (constraint_step stem False r (key, val) = Next
             \<longleftrightarrow> (\<forall>s. map_of r key = Some (JStr s) \<longrightarrow> strip val = strip s)))"
proof -
  have a: "\<And>r. constraint_step stem True r (key, val) = Next"
    using assms by (rule constraint_step_ignore_open)
  from query_drop_constraint [of stem True "(key, val)" db domain cs "[]" g, OF a]
  have b: "query db stem domain (cs @ [(key, val)]) True g = query db stem domain cs True g"
    by simp
  from assms have k: "key \<noteq> ''leaveAt''" "key \<noteq> ''arriveBy''"
    by auto
  have c: "constraint_step stem False r (key, val) = Next
             \<longleftrightarrow> (\<forall>s. map_of r key = Some (JStr s) \<longrightarrow> strip val = strip s)"
    if "\<not> dontcare val"
    using that k by (rule constraint_step_default) simp
  from a b c show ?thesis by blast
qed

theorem ignore_open_fields_witness:
  "(''destination'' = ''destination'' \<or> ''destination'' = ''departure'') \<and>
   \<not> dontcare ''london'' \<and>
   map_of train_0800 ''destination'' = Some (JStr ''cambridge'') \<and>
   strip ''london'' \<noteq> strip ''cambridge'' \<and>
   constraint_step id True train_0800 (''destination'', ''london'') = Next \<and>
   query fixture id ''train'' ([] @ [(''destination'', ''london'')]) True fixed_rng
     = query fixture id ''train'' [] True fixed_rng \<and>
   constraint_step id False train_0800 (''destination'', ''london'') \<noteq> Next"
proof -
  have h: "''destination'' = ''destination'' \<or> ''destination'' = ''departure''"
    by simp
  have d: "\<not> dontcare ''london''"
    by (simp add: dontcare_def)
  have m: "map_of train_0800 ''destination'' = Some (JStr ''cambridge'')"
    by (simp add: train_0800_def)
  have s: "strip ''london'' \<noteq> strip ''cambridge''"
    by code_simp
  show ?thesis
    using h d m s
      ignore_open_fields [OF h, of id train_0800 "''london''" fixture "''train''" "[]" fixed_rng]
    by simp
qed

subsection \<open>Order of the result\<close>

text \<open>
  Claim C8. For each domain of the store other than \<open>taxi\<close>, \<open>police\<close> and \<open>hospital\<close>,
  and each list of constraints, \<open>query\<close> returns a list, never an error, and the list is
  a subsequence of the domain's collection: the records that satisfy every constraint,
  in the order of the store, none twice, each one a record of the store. The list may
  be empty.
\<close>

theorem result_subsequence:
  assumes "domain \<in> set domains" and "domain \<notin> {''taxi'', ''police'', ''hospital''}"
  shows "\<exists>records found.
           dbs_getitem db domain = Inr records \<and>
           query db stem domain cs io g = (Inr found, g) \<and>
           found = filter (\<lambda>r. \<forall>c \<in> set cs. constraint_step stem io r c = Next) records \<and>
           subseq found records \<and> set found \<subseteq> set records"
proof -
  from assms have "domain \<noteq> ''taxi''" "domain \<noteq> ''police''" "domain \<noteq> ''hospital''"
    by simp_all
  moreover from dbs_getitem_domains [OF assms(1) this(1)] obtain records
    where "dbs_getitem db domain = Inr records" ..
  ultimately show ?thesis
    using query_generic [of db domain records stem cs io g] by simp
qed

theorem result_subsequence_witness:
  "''train'' \<in> set domains \<and> ''train'' \<notin> {''taxi'', ''police'', ''hospital''} \<and>
   (\<exists>found. query fixture id ''train'' [(''leaveAt'', ''08:30'')] True fixed_rng
              = (Inr found, fixed_rng) \<and>
            subseq found [train_0800, train_0930] \<and>
            set found \<subseteq> {train_0800, train_0930}) \<and>
   fst (query fixture id ''train'' [(''destination'', ''london'')] False fixed_rng) = Inr []"
proof -
  have e: "fst (query fixture id ''train'' [(''destination'', ''london'')] False fixed_rng) = Inr []"
    by code_simp
  have h: "''train'' \<in> set domains" "''train'' \<notin> {''taxi'', ''police'', ''hospital''}"
    by (simp_all add: domains_def)
  have d: "dbs_getitem fixture ''train'' = Inr [train_0800, train_0930]"
    by (simp add: dbs_getitem_def fixture_def)
  from result_subsequence [OF h, of fixture id "[(''leaveAt'', ''08:30'')]" True fixed_rng] d h e
  show ?thesis
    by auto
qed

text \<open>
  Claim C9. For each domain of the store other than \<open>taxi\<close>, \<open>police\<close> and \<open>hospital\<close>,
  \<open>query\<close> with the empty list of constraints returns the domain's whole collection,
  unchanged and in its order.
\<close>

theorem empty_constraints:
  assumes "domain \<in> set domains" and "domain \<notin> {''taxi'', ''police'', ''hospital''}"
  shows "\<exists>records. dbs_getitem db domain = Inr records \<and>
                   query db stem domain [] io g = (Inr records, g)"
proof -
  from assms have "domain \<noteq> ''taxi''" "domain \<noteq> ''police''" "domain \<noteq> ''hospital''"
    by simp_all
  moreover from dbs_getitem_domains [OF assms(1) this(1)] obtain records
    where "dbs_getitem db domain = Inr records" ..
  ultimately show ?thesis
    using query_generic [of db domain records stem "[]" io g] by simp
qed

theorem empty_constraints_witness:
  "''train'' \<in> set domains \<and> ''train'' \<notin> {''taxi'', ''police'', ''hospital''} \<and>
   query fixture id ''train'' [] False fixed_rng = (Inr [train_0800, train_0930], fixed_rng)"
proof -
  have h: "''train'' \<in> set domains" "''train'' \<notin> {''taxi'', ''police'', ''hospital''}"
    by (simp_all add: domains_def)
  have d: "dbs_getitem fixture ''train'' = Inr [train_0800, train_0930]"
    by (simp add: dbs_getitem_def fixture_def)
  from empty_constraints [OF h, of fixture id False fixed_rng] d h
  show ?thesis
    by auto
qed


subsection \<open>Case variants of the time keys\<close>

lemma lower_fields:
  "lower ''destination'' = ''destination''" "lower ''departure'' = ''departure''"
  by code_simp+

text \<open>
  Claim C10. The comparison of times is made only under the keys \<open>leaveAt\<close> and \<open>arriveBy\<close>
  written exactly so. Let a record's only field with the name \<open>leaveAt\<close> (or \<open>arriveBy\<close>) up
  to case be written exactly so, and let the key of a constraint equal that name up to
  case without being it, as \<open>leaveat\<close> does. Then the body reads the record under the
  key as written, the read raises \<^verbatim>\<open>KeyError\<close>, the error is dropped, and the constraint
  is satisfied, whatever the two times are.
\<close>

theorem time_key_case_variant:
  assumes "field = ''leaveAt'' \<or> field = ''arriveBy''"
    and "field \<in> fst ` set r"
    and "\<forall>k \<in> fst ` set r. lower k = lower field \<longrightarrow> k = field"
    and "lower key = lower field" and "key \<noteq> field"
  shows "try_body stem io r key val = Inl KeyError \<and>
         constraint_step stem io r (key, val) = Next"
proof -
  from assms(1,4) have l: "lower key = ''leaveat'' \<or> lower key = ''arriveby''"
    by (auto simp: lower_literals)
  have k: "key \<noteq> ''leaveAt''" "key \<noteq> ''arriveBy''"
    using assms(1,4,5) l by (auto simp: lower_literals)
  have o: "key \<noteq> ''destination''" "key \<noteq> ''departure''"
    using l by (auto simp: lower_fields)
  from assms(2,4) have res: "lower key \<in> (\<lambda>kv. lower (fst kv)) ` set r"
    by force
  from assms(3,4,5) have "key \<notin> fst ` set r"
    by blast
  then have "map_of r key = None"
    by (simp add: map_of_eq_None_iff)
  then have "dict_getitem r key = Inl KeyError"
    by (simp add: dict_getitem_def)
  with res o have "try_body stem io r key val = Inl KeyError"
    by (simp add: try_body_other_eq [OF k])
  then show ?thesis
    by (simp add: constraint_step_def)
qed

theorem time_key_case_variant_witness:
  "(''leaveAt'' = ''leaveAt'' \<or> ''leaveAt'' = ''arriveBy'') \<and>
   ''leaveAt'' \<in> fst ` set train_0800 \<and>
   filter (\<lambda>k. lower k = lower ''leaveAt'') (map fst train_0800) = [''leaveAt''] \<and>
   lower ''leaveat'' = lower ''leaveAt'' \<and> ''leaveat'' \<noteq> ''leaveAt'' \<and>
   try_body id True train_0800 ''leaveat'' ''23:00'' = Inl KeyError \<and>
   constraint_step id True train_0800 (''leaveat'', ''23:00'') = Next \<and>
   constraint_step id True train_0800 (''leaveAt'', ''23:00'') = Break"
proof -
  have h1: "''leaveAt'' = ''leaveAt'' \<or> ''leaveAt'' = ''arriveBy''"
    by simp
  have h2: "''leaveAt'' \<in> fst ` set train_0800"
    by (simp add: train_0800_def)
  have h3: "\<forall>k \<in> fst ` set train_0800. lower k = lower ''leaveAt'' \<longrightarrow> k = ''leaveAt''"
    by code_simp
  have h4: "lower ''leaveat'' = lower ''leaveAt''"
    by code_simp
  have h5: "''leaveat'' \<noteq> ''leaveAt''"
    by simp
  have f: "filter (\<lambda>k. lower k = lower ''leaveAt'') (map fst train_0800) = [''leaveAt'']"
    by code_simp
  have b: "constraint_step id True train_0800 (''leaveAt'', ''23:00'') = Break"
    by code_simp
  show ?thesis
    using h1 h2 f h4 h5 b time_key_case_variant [OF h1 h2 h3 h4 h5, of id True "''23:00''"]
    by simp
qed

end
